theory Spec2Isabelle
  imports Complex_Main
begin

section \<open>JavaScript numbers\<close>

text \<open>
  A TypeScript \<open>number\<close> is modelled as a real or one of the three special values
  \<open>Infinity\<close>, \<open>-Infinity\<close> and \<open>NaN\<close>.  Arithmetic on finite values is exact
  (rounding and overflow of doubles are not modelled, and the two zeros are identified, a
  division of a positive value by zero giving \<open>Infinity\<close>); the special values follow
  IEEE 754 as JavaScript does: \<open>NaN\<close> is absorbing and every comparison with it is false.
\<close>

datatype number = Fin real | PInf | NInf | NaN

instantiation number :: "{plus, minus, times, inverse, abs, ord}"
begin

fun plus_number :: "number \<Rightarrow> number \<Rightarrow> number" where
  "plus_number (Fin a) (Fin b) = Fin (a + b)"
| "plus_number NaN _ = NaN"
| "plus_number _ NaN = NaN"
| "plus_number PInf NInf = NaN"
| "plus_number NInf PInf = NaN"
| "plus_number PInf _ = PInf"
| "plus_number _ PInf = PInf"
| "plus_number NInf _ = NInf"
| "plus_number _ NInf = NInf"

fun minus_number :: "number \<Rightarrow> number \<Rightarrow> number" where
  "minus_number (Fin a) (Fin b) = Fin (a - b)"
| "minus_number NaN _ = NaN"
| "minus_number _ NaN = NaN"
| "minus_number PInf PInf = NaN"
| "minus_number NInf NInf = NaN"
| "minus_number PInf _ = PInf"
| "minus_number _ NInf = PInf"
| "minus_number NInf _ = NInf"
| "minus_number _ PInf = NInf"

fun times_number :: "number \<Rightarrow> number \<Rightarrow> number" where
  "times_number (Fin a) (Fin b) = Fin (a * b)"
| "times_number NaN _ = NaN"
| "times_number _ NaN = NaN"
| "times_number PInf (Fin b) = (if 0 < b then PInf else if b < 0 then NInf else NaN)"
| "times_number NInf (Fin b) = (if 0 < b then NInf else if b < 0 then PInf else NaN)"
| "times_number (Fin a) PInf = (if 0 < a then PInf else if a < 0 then NInf else NaN)"
| "times_number (Fin a) NInf = (if 0 < a then NInf else if a < 0 then PInf else NaN)"
| "times_number PInf PInf = PInf"
| "times_number NInf NInf = PInf"
| "times_number PInf NInf = NInf"
| "times_number NInf PInf = NInf"

fun divide_number :: "number \<Rightarrow> number \<Rightarrow> number" where
  "divide_number (Fin a) (Fin b) =
     (if b \<noteq> 0 then Fin (a / b)
      else if 0 < a then PInf else if a < 0 then NInf else NaN)"
| "divide_number NaN _ = NaN"
| "divide_number _ NaN = NaN"
| "divide_number (Fin a) PInf = Fin 0"
| "divide_number (Fin a) NInf = Fin 0"
| "divide_number PInf (Fin b) = (if 0 \<le> b then PInf else NInf)"
| "divide_number NInf (Fin b) = (if 0 \<le> b then NInf else PInf)"
| "divide_number PInf _ = NaN"
| "divide_number NInf _ = NaN"

definition inverse_number :: "number \<Rightarrow> number" where
  "inverse_number a = divide (Fin 1) a"

fun abs_number :: "number \<Rightarrow> number" where
  "abs_number (Fin a) = Fin \<bar>a\<bar>"
| "abs_number PInf = PInf"
| "abs_number NInf = PInf"
| "abs_number NaN = NaN"

fun less_number :: "number \<Rightarrow> number \<Rightarrow> bool" where
  "less_number (Fin a) (Fin b) = (a < b)"
| "less_number NaN _ = False"
| "less_number _ NaN = False"
| "less_number _ NInf = False"
| "less_number PInf _ = False"
| "less_number NInf _ = True"
| "less_number _ PInf = True"

definition less_eq_number :: "number \<Rightarrow> number \<Rightarrow> bool" where
  "less_eq_number a b = (a \<noteq> NaN \<and> b \<noteq> NaN \<and> (a < b \<or> a = b))"

instance ..

end

text \<open>Strict equality \<open>a === b\<close> on numbers: \<open>NaN\<close> is not equal to itself.\<close>

definition strict_eq :: "number \<Rightarrow> number \<Rightarrow> bool" where
  "strict_eq a b = (a \<noteq> NaN \<and> a = b)"

text \<open>
  An array read \<open>xs[i]\<close> used as an operand: out of range the read gives
  \<open>undefined\<close>, which arithmetic and comparisons convert to \<open>NaN\<close>.
\<close>

definition nth_num :: "number list \<Rightarrow> nat \<Rightarrow> number" where
  "nth_num xs i = (if i < length xs then xs ! i else NaN)"

datatype error = TypeError

section \<open>Indicators\<close>

text \<open>
  \<open>calculateRSI\<close>: the first loop sums the gains and losses of the differences
  \<open>1..period\<close>, the second loop smooths from index \<open>period + 1\<close> on and pushes one value
  per index.
\<close>

fun seed_loop :: "number list \<Rightarrow> number \<times> number \<Rightarrow> nat list \<Rightarrow> number \<times> number" where
  "seed_loop closes (avgGain, avgLoss) [] = (avgGain, avgLoss)"
| "seed_loop closes (avgGain, avgLoss) (i # is) =
     (let diff = nth_num closes i - nth_num closes (i - 1)
      in if diff > Fin 0 then seed_loop closes (avgGain + diff, avgLoss) is
         else seed_loop closes (avgGain, avgLoss + \<bar>diff\<bar>) is)"

fun rsi_loop :: "number list \<Rightarrow> nat \<Rightarrow> number \<times> number \<Rightarrow> nat list \<Rightarrow> number list" where
  "rsi_loop closes period (avgGain, avgLoss) [] = []"
| "rsi_loop closes period (avgGain, avgLoss) (i # is) =
     (let diff = nth_num closes i - nth_num closes (i - 1);
          gain = (if diff > Fin 0 then diff else Fin 0);
          loss = (if diff < Fin 0 then \<bar>diff\<bar> else Fin 0);
          avgGain2 = (avgGain * Fin (real period - 1) + gain) / Fin (real period);
          avgLoss2 = (avgLoss * Fin (real period - 1) + loss) / Fin (real period);
          rs = (if strict_eq avgLoss2 (Fin 0) then PInf else avgGain2 / avgLoss2)
      in (Fin 100 - Fin 100 / (Fin 1 + rs))
         # rsi_loop closes period (avgGain2, avgLoss2) is)"

definition calculateRSI :: "number list \<Rightarrow> nat \<Rightarrow> number list" where
  "calculateRSI closes period =
     (let (g, l) = seed_loop closes (Fin 0, Fin 0) [1..<period + 1];
          avgGain = g / Fin (real period);
          avgLoss = l / Fin (real period)
      in rsi_loop closes period (avgGain, avgLoss) [period + 1..<length closes])"

text \<open>
  \<open>calculateChaikinVolatility\<close>: \<open>reduce\<close> without an initial value throws a
  \<open>TypeError\<close> on an empty array, which is the only failure of the function.
\<close>

fun ema_loop :: "number \<Rightarrow> number \<Rightarrow> number list \<Rightarrow> number list" where
  "ema_loop multiplier prev [] = []"
| "ema_loop multiplier prev (x # xs) =
     (let e = (x - prev) * multiplier + prev in e # ema_loop multiplier e xs)"

definition reduce_sum :: "number list \<Rightarrow> error + number" where
  "reduce_sum xs = (case xs of [] \<Rightarrow> Inl TypeError | x # rest \<Rightarrow> Inr (foldl (+) x rest))"

definition calculateChaikinVolatility ::
  "number list \<Rightarrow> number list \<Rightarrow> nat \<Rightarrow> error + number list" where
  "calculateChaikinVolatility highs lows len =
     (let hlDiff = map (\<lambda>(i, h). h - nth_num lows i) (enumerate 0 highs);
          multiplier = Fin 2 / Fin (real len + 1)
      in case reduce_sum (take len hlDiff) of
           Inl e \<Rightarrow> Inl e
         | Inr s \<Rightarrow>
             (let initialEMA = s / Fin (real len);
                  emaHL = initialEMA # ema_loop multiplier initialEMA (drop len hlDiff)
              in Inr (map (\<lambda>i. ((emaHL ! i - emaHL ! (i - len)) / emaHL ! (i - len)) * Fin 100)
                          [len..<length emaHL])))"

definition calculatePercentageChange :: "number \<Rightarrow> number \<Rightarrow> number" where
  "calculatePercentageChange buyPrice sellPrice = ((sellPrice - buyPrice) / buyPrice) * Fin 100"

section \<open>Signal generation\<close>

text \<open>
  A candle of the \<open>ohlcvData\<close> array.  Its \<open>time\<close> is a Unix timestamp, a whole number
  of seconds, and is modelled as an integer; the prices are numbers.  The field \<open>open\<close>
  is written \<open>opn\<close>.
\<close>

record ohlcv =
  time :: int
  opn :: number
  high :: number
  low :: number
  close :: number

record Trade =
  buyTime :: int
  sellTime :: int
  buyPrice :: number
  sellPrice :: number
  percentageChange :: number

record SignalParameters =
  buyRsiThreshold :: number
  buyCvThreshold :: number
  sellRsiThreshold :: number
  sellCvThreshold :: number

record TradeAnalytics =
  initialInvestment :: number
  currentPortfolioValue :: number
  totalPercentageChange :: number
  trades :: "Trade list"

text \<open>
  A chart marker.  The source's marker object carries, besides its time, a position, a
  colour, a shape and a text, all of them fixed by which of the five \<open>push\<close> sites
  created it (and, for the percentage label, by the percentage); the constructor records
  the site.  The optional \<open>colors\<close> argument only selects those colours.
\<close>

datatype marker =
  Buy int | Sell int | PercentLabel int number | AllBuy int | AllSell int

fun marker_time :: "marker \<Rightarrow> int" where
  "marker_time (Buy t) = t"
| "marker_time (Sell t) = t"
| "marker_time (PercentLabel t c) = t"
| "marker_time (AllBuy t) = t"
| "marker_time (AllSell t) = t"

record scan_state =
  activeBuySignal :: "(int \<times> number) option"
  completedTrades :: "Trade list"
  signals :: "marker list"
  allSignals :: "marker list"

record signals_result =
  finalSignals :: "marker list"
  tradeAnalytics :: TradeAnalytics
  profit :: number
  numTrades :: nat

definition offset :: nat where
  "offset = 14"

definition buy_condition :: "'a SignalParameters_scheme \<Rightarrow> number \<Rightarrow> number \<Rightarrow> bool" where
  "buy_condition parameters cv rsi =
     (cv < buyCvThreshold parameters \<and> rsi < buyRsiThreshold parameters)"

definition sell_condition :: "'a SignalParameters_scheme \<Rightarrow> number \<Rightarrow> number \<Rightarrow> bool" where
  "sell_condition parameters cv rsi =
     (cv > sellCvThreshold parameters \<and> rsi > sellRsiThreshold parameters)"

text \<open>The body of the scan loop of \<open>generateTradingSignals\<close> at indicator index \<open>i\<close>.\<close>

definition scan_step ::
  "ohlcv list \<Rightarrow> 'a SignalParameters_scheme \<Rightarrow> bool \<Rightarrow> number list \<Rightarrow> number list
     \<Rightarrow> scan_state \<Rightarrow> nat \<Rightarrow> scan_state" where
  "scan_step ohlcvData parameters showAllSignals rsiValues cvValues st i =
     (let cvIndex = int (length cvValues) - int (length rsiValues) + int i
      in if cvIndex \<ge> 0 \<and> i + offset < length ohlcvData then
           (let cv = nth_num cvValues (nat cvIndex);
                rsi = nth_num rsiValues i;
                candle = ohlcvData ! (i + offset);
                st1 =
                  (if activeBuySignal st = None \<and> buy_condition parameters cv rsi then
                     st\<lparr>activeBuySignal := Some (time candle, close candle),
                        signals := signals st @ [Buy (time candle)]\<rparr>
                   else
                     (case activeBuySignal st of
                        None \<Rightarrow> st
                      | Some (bTime, bPrice) \<Rightarrow>
                          if sell_condition parameters cv rsi then
                            (let sPrice = close candle;
                                 percentChange = calculatePercentageChange bPrice sPrice
                             in st\<lparr>activeBuySignal := None,
                                   completedTrades := completedTrades st @
                                     [\<lparr>buyTime = bTime, sellTime = time candle,
                                       buyPrice = bPrice, sellPrice = sPrice,
                                       percentageChange = percentChange\<rparr>],
                                   signals := signals st @
                                     [Sell (time candle),
                                      PercentLabel (time candle) percentChange]\<rparr>)
                          else st))
            in if showAllSignals then
                 st1\<lparr>allSignals := allSignals st1
                   @ (if buy_condition parameters cv rsi then [AllBuy (time candle)] else [])
                   @ (if sell_condition parameters cv rsi then [AllSell (time candle)] else [])\<rparr>
               else st1)
         else st)"

definition scan_init :: scan_state where
  "scan_init = \<lparr>activeBuySignal = None, completedTrades = [], signals = [], allSignals = []\<rparr>"

definition portfolio_value :: "number \<Rightarrow> Trade list \<Rightarrow> number" where
  "portfolio_value initial ts =
     foldl (\<lambda>v trade. v * (Fin 1 + percentageChange trade / Fin 100)) initial ts"

text \<open>
  \<open>generateTradingSignals\<close>.  The only exception it can raise is the \<open>TypeError\<close> of
  \<open>calculateChaikinVolatility\<close>; every array read of the scan is guarded.  The final
  \<open>sort\<close> by time is stable.  The parameters may be any object with the four threshold
  fields (the optimizer passes its candidates, which carry two more fields).
\<close>

definition generateTradingSignals ::
  "ohlcv list \<Rightarrow> 'a SignalParameters_scheme \<Rightarrow> bool \<Rightarrow> error + signals_result" where
  "generateTradingSignals ohlcvData parameters showAllSignals =
     (let closePrices = map close ohlcvData;
          highPrices = map high ohlcvData;
          lowPrices = map low ohlcvData;
          rsiValues = calculateRSI closePrices 14
      in case calculateChaikinVolatility highPrices lowPrices 10 of
           Inl e \<Rightarrow> Inl e
         | Inr cvValues \<Rightarrow>
             (let st = foldl (scan_step ohlcvData parameters showAllSignals rsiValues cvValues)
                         scan_init [1..<length rsiValues];
                  initialInv = Fin 1000;
                  currentValue = portfolio_value initialInv (completedTrades st);
                  totalChange = ((currentValue - initialInv) / initialInv) * Fin 100
              in Inr \<lparr>finalSignals =
                        (if showAllSignals
                         then sort_key marker_time (signals st @ allSignals st)
                         else signals st),
                      tradeAnalytics =
                        \<lparr>initialInvestment = initialInv,
                         currentPortfolioValue = currentValue,
                         totalPercentageChange = totalChange,
                         trades = completedTrades st\<rparr>,
                      profit = totalChange,
                      numTrades = length (completedTrades st)\<rparr>))"

section \<open>Optimizer hook\<close>

text \<open>
  The types of \<open>useOptimization\<close>.  Field names that would clash are prefixed: the field
  \<open>numTrades\<close> of an \<open>OptimizationResult\<close> is \<open>opt_numTrades\<close>, the \<open>min\<close> and \<open>max\<close>
  of a bound are \<open>bmin\<close> and \<open>bmax\<close>, and the \<open>profit\<close> and \<open>params\<close> of the
  \<open>highestProfit\<close> cell are \<open>hp_profit\<close> and \<open>hp_params\<close>.  \<open>hook_state\<close> collects the
  four \<open>useState\<close> cells of the hook.
\<close>

record OptimizationResult = SignalParameters +
  maxProfit :: number
  opt_numTrades :: nat

record bound =
  bmin :: number
  bmax :: number

record OptimizationBounds =
  buyRsi :: bound
  buyCv :: bound
  sellRsi :: bound
  sellCv :: bound

record highest =
  hp_profit :: number
  hp_params :: SignalParameters

record hook_state =
  isOptimizing :: bool
  testParams :: SignalParameters
  bestParams :: OptimizationResult
  highestProfit :: highest

definition default_parameters :: SignalParameters where
  "default_parameters =
     \<lparr>buyRsiThreshold = Fin 40, buyCvThreshold = Fin (-19.9),
      sellRsiThreshold = Fin 72, sellCvThreshold = Fin 65\<rparr>"

definition params_of :: "'a SignalParameters_scheme \<Rightarrow> SignalParameters" where
  "params_of p =
     \<lparr>buyRsiThreshold = buyRsiThreshold p, buyCvThreshold = buyCvThreshold p,
      sellRsiThreshold = sellRsiThreshold p, sellCvThreshold = sellCvThreshold p\<rparr>"

definition with_result :: "'a SignalParameters_scheme \<Rightarrow> number \<Rightarrow> nat \<Rightarrow> OptimizationResult" where
  "with_result p mp nt =
     \<lparr>buyRsiThreshold = buyRsiThreshold p, buyCvThreshold = buyCvThreshold p,
      sellRsiThreshold = sellRsiThreshold p, sellCvThreshold = sellCvThreshold p,
      maxProfit = mp, opt_numTrades = nt\<rparr>"

text \<open>The initial values of the four \<open>useState\<close> cells.\<close>

definition initial_state :: hook_state where
  "initial_state =
     \<lparr>isOptimizing = False,
      testParams = default_parameters,
      bestParams = with_result default_parameters NInf 0,
      highestProfit = \<lparr>hp_profit = NInf, hp_params = default_parameters\<rparr>\<rparr>"

definition bounds :: OptimizationBounds where
  "bounds =
     \<lparr>buyRsi = \<lparr>bmin = Fin 0, bmax = Fin 100\<rparr>,
      buyCv = \<lparr>bmin = Fin (-50), bmax = Fin 0\<rparr>,
      sellRsi = \<lparr>bmin = Fin 0, bmax = Fin 100\<rparr>,
      sellCv = \<lparr>bmin = Fin 0, bmax = Fin 400\<rparr>\<rparr>"

definition math_max :: "number \<Rightarrow> number \<Rightarrow> number" where
  "math_max a b = (if a = NaN \<or> b = NaN then NaN else if a < b then b else a)"

definition math_min :: "number \<Rightarrow> number \<Rightarrow> number" where
  "math_min a b = (if a = NaN \<or> b = NaN then NaN else if b < a then b else a)"

fun math_floor :: "number \<Rightarrow> number" where
  "math_floor (Fin a) = Fin (of_int \<lfloor>a\<rfloor>)"
| "math_floor x = x"

definition clamp :: "number \<Rightarrow> number \<Rightarrow> number \<Rightarrow> number" where
  "clamp val mn mx = math_max mn (math_min val mx)"

text \<open>
  \<open>Math.random()\<close> is an ambient source; the model reads it from a given sequence
  \<open>rnd\<close> at a cursor that each call advances by one.
\<close>

type_synonym rng = "nat \<Rightarrow> real"

definition randInt :: "real \<Rightarrow> number \<Rightarrow> number \<Rightarrow> number" where
  "randInt r mn mx = math_floor (Fin r * (mx - mn + Fin 1)) + mn"

definition randomParams :: "rng \<Rightarrow> nat \<Rightarrow> SignalParameters \<times> nat" where
  "randomParams rnd k =
     (\<lparr>buyRsiThreshold = randInt (rnd k) (bmin (buyRsi bounds)) (bmax (buyRsi bounds)),
       buyCvThreshold = randInt (rnd (k + 1)) (bmin (buyCv bounds)) (bmax (buyCv bounds)),
       sellRsiThreshold = randInt (rnd (k + 2)) (bmin (sellRsi bounds)) (bmax (sellRsi bounds)),
       sellCvThreshold = randInt (rnd (k + 3)) (bmin (sellCv bounds)) (bmax (sellCv bounds))\<rparr>,
      k + 4)"

text \<open>
  \<open>randomNeighbor\<close>: the first random number chooses the key, the second the sign of the
  step.  An index outside \<open>0..3\<close> (which \<open>Math.random\<close> never produces) selects no
  key of the record and leaves the four thresholds as they are.
\<close>

definition randomNeighbor ::
  "rng \<Rightarrow> nat \<Rightarrow> 'a SignalParameters_scheme \<Rightarrow> 'a SignalParameters_scheme \<times> nat" where
  "randomNeighbor rnd k params =
     (let chosen = \<lfloor>rnd k * 4\<rfloor>;
          stepSize = 5;
          delta = (if rnd (k + 1) < 0.5 then Fin (- stepSize) else Fin stepSize)
      in ((if chosen = 0 then
             params\<lparr>buyRsiThreshold :=
               clamp (buyRsiThreshold params + delta) (bmin (buyRsi bounds)) (bmax (buyRsi bounds))\<rparr>
           else if chosen = 2 then
             params\<lparr>sellRsiThreshold :=
               clamp (sellRsiThreshold params + delta) (bmin (sellRsi bounds)) (bmax (sellRsi bounds))\<rparr>
           else if chosen = 1 then
             params\<lparr>buyCvThreshold :=
               clamp (buyCvThreshold params + delta) (bmin (buyCv bounds)) (bmax (buyCv bounds))\<rparr>
           else if chosen = 3 then
             params\<lparr>sellCvThreshold :=
               clamp (sellCvThreshold params + delta) (bmin (sellCv bounds)) (bmax (sellCv bounds))\<rparr>
           else params),
          k + 2))"

text \<open>
  The loop of \<open>runOneHillClimb\<close>, with the number of iterations left.  An exception of
  the evaluation leaves the loop with the hook state reached so far.
\<close>

fun climb_loop ::
  "nat \<Rightarrow> ohlcv list \<Rightarrow> rng \<Rightarrow> nat \<Rightarrow> OptimizationResult \<Rightarrow> hook_state
     \<Rightarrow> error \<times> hook_state + OptimizationResult \<times> hook_state \<times> nat" where
  "climb_loop 0 ohlcvData rnd k current st = Inr (current, st, k)"
| "climb_loop (Suc n) ohlcvData rnd k current st =
     (let (candidate, k2) = randomNeighbor rnd k current
      in case generateTradingSignals ohlcvData candidate False of
           Inl e \<Rightarrow> Inl (e, st)
         | Inr result \<Rightarrow>
             if profit result > maxProfit current \<and> numTrades result \<ge> 3 then
               (let current2 = candidate\<lparr>maxProfit := profit result,
                                          opt_numTrades := numTrades result\<rparr>
                in climb_loop n ohlcvData rnd k2 current2
                     (st\<lparr>testParams := params_of current2\<rparr>))
             else climb_loop n ohlcvData rnd k2 current st)"

text \<open>
  \<open>runOneHillClimb\<close>.  \<open>captured\<close> is the hook state of the render that created the
  callback (its \<open>testParams\<close> is what the \<open>null\<close> branch reads); \<open>st\<close> is the live state
  that \<open>setTestParams\<close> updates.
\<close>

definition runOneHillClimb ::
  "ohlcv list option \<Rightarrow> hook_state \<Rightarrow> rng \<Rightarrow> nat \<Rightarrow> hook_state
     \<Rightarrow> error \<times> hook_state + OptimizationResult \<times> hook_state \<times> nat" where
  "runOneHillClimb ohlcvData captured rnd k st =
     (case ohlcvData of
        None \<Rightarrow> Inr (with_result (testParams captured) NInf 0, st, k)
      | Some d \<Rightarrow>
          (let maxIterations = 300;
               (start, k2) = randomParams rnd k
           in case generateTradingSignals d start False of
                Inl e \<Rightarrow> Inl (e, st)
              | Inr initialResult \<Rightarrow>
                  climb_loop maxIterations d rnd k2
                    (with_result start (profit initialResult) (numTrades initialResult)) st))"

text \<open>
  What a run does to its observer.  \<open>Emit now p\<close> is a call of \<open>onParametersUpdate\<close>
  inside the throttle window test, made at clock reading \<open>now\<close>; \<open>Suppressed now p\<close> marks
  an improvement found at \<open>now\<close> whose call the throttle skipped; \<open>FinalEmit p\<close> is the
  call after the loop.
\<close>

datatype event =
  Emit int SignalParameters | Suppressed int SignalParameters | FinalEmit SignalParameters

record loop_state =
  localBest :: OptimizationResult
  lastUpdateTime :: int
  hook :: hook_state
  cursor :: nat
  events :: "event list"

definition UPDATE_THROTTLE :: int where
  "UPDATE_THROTTLE = 200"

text \<open>
  The \<open>while\<close> loop of \<open>runHillClimbForFiveSeconds\<close>.  The readings of \<open>Date.now()\<close>
  are given as a list, consumed one per call; the loop may not end (a clock that stands
  still), so a list that runs out before the loop ends gives \<open>None\<close>.
\<close>

fun run_loop ::
  "ohlcv list option \<Rightarrow> hook_state \<Rightarrow> rng \<Rightarrow> int \<Rightarrow> int list \<Rightarrow> loop_state
     \<Rightarrow> (error \<times> loop_state + loop_state) option" where
  "run_loop ohlcvData captured rnd startTime [] ls = None"
| "run_loop ohlcvData captured rnd startTime (t # clock) ls =
     (if t - startTime < 5000 then
        (case runOneHillClimb ohlcvData captured rnd (cursor ls) (hook ls) of
           Inl (e, h) \<Rightarrow> Some (Inl (e, ls\<lparr>hook := h\<rparr>))
         | Inr (attempt, h, k) \<Rightarrow>
             if maxProfit attempt > maxProfit (localBest ls) then
               (case clock of
                  [] \<Rightarrow> None
                | now # clock2 \<Rightarrow>
                    if now - lastUpdateTime ls \<ge> UPDATE_THROTTLE then
                      run_loop ohlcvData captured rnd startTime clock2
                        (ls\<lparr>localBest := attempt, lastUpdateTime := now,
                            hook := h\<lparr>bestParams := attempt\<rparr>, cursor := k,
                            events := events ls @ [Emit now (params_of attempt)]\<rparr>)
                    else
                      run_loop ohlcvData captured rnd startTime clock2
                        (ls\<lparr>localBest := attempt, hook := h, cursor := k,
                            events := events ls @ [Suppressed now (params_of attempt)]\<rparr>))
             else run_loop ohlcvData captured rnd startTime clock (ls\<lparr>hook := h, cursor := k\<rparr>))
      else Some (Inr ls))"

record run_result =
  final_state :: hook_state
  emitted :: "event list"
  thrown :: "error option"
  final_cursor :: nat

text \<open>
  \<open>runHillClimbForFiveSeconds\<close>, called in hook state \<open>st\<close> (the state its closure
  captured).  The \<open>finally\<close> block clears \<open>isOptimizing\<close> on both exits.
\<close>

definition runHillClimbForFiveSeconds ::
  "ohlcv list option \<Rightarrow> rng \<Rightarrow> nat \<Rightarrow> int list \<Rightarrow> hook_state \<Rightarrow> run_result option" where
  "runHillClimbForFiveSeconds ohlcvData rnd k clock st =
     (case clock of
        [] \<Rightarrow> None
      | startTime # clock2 \<Rightarrow>
          (case run_loop ohlcvData st rnd startTime clock2
                  \<lparr>localBest = bestParams st, lastUpdateTime = 0,
                   hook = st\<lparr>isOptimizing := True\<rparr>, cursor = k, events = []\<rparr> of
             None \<Rightarrow> None
           | Some (Inl (e, ls)) \<Rightarrow>
               Some \<lparr>final_state = (hook ls)\<lparr>isOptimizing := False\<rparr>,
                     emitted = events ls, thrown = Some e, final_cursor = cursor ls\<rparr>
           | Some (Inr ls) \<Rightarrow>
               (let h1 = (hook ls)\<lparr>bestParams := localBest ls\<rparr>;
                    h2 = (if maxProfit (localBest ls) > hp_profit (highestProfit st)
                          then h1\<lparr>highestProfit :=
                                 \<lparr>hp_profit = maxProfit (localBest ls),
                                  hp_params = params_of (localBest ls)\<rparr>\<rparr>
                          else h1)
                in Some \<lparr>final_state = h2\<lparr>isOptimizing := False\<rparr>,
                         emitted = events ls @ [FinalEmit (params_of (localBest ls))],
                         thrown = None, final_cursor = cursor ls\<rparr>)))"

definition resetParameters :: "hook_state \<Rightarrow> hook_state" where
  "resetParameters st =
     st\<lparr>testParams := default_parameters,
        bestParams := with_result default_parameters NInf 0,
        highestProfit := \<lparr>hp_profit = NInf, hp_params = default_parameters\<rparr>\<rparr>"

section \<open>Reference values\<close>


definition candle :: "int \<Rightarrow> real \<Rightarrow> real \<Rightarrow> real \<Rightarrow> ohlcv" where
  "candle t h l c = \<lparr>time = t, opn = Fin c, high = Fin h, low = Fin l, close = Fin c\<rparr>"

text \<open>
  A series of 21 one-minute candles: flat closes at 100, a dip to 99 at candle 19 and a
  rise to 110 at candle 20, with ranges chosen so that the two Chaikin values cross the
  default thresholds.
\<close>

definition example_candles :: "ohlcv list" where
  "example_candles =
     [candle 0 105.5 94.5 100, candle 60 105.5 94.5 100, candle 120 105.5 94.5 100,
      candle 180 105.5 94.5 100, candle 240 105.5 94.5 100, candle 300 105.5 94.5 100,
      candle 360 105.5 94.5 100, candle 420 105.5 94.5 100, candle 480 105.5 94.5 100,
      candle 540 105.5 94.5 100, candle 600 100 100 100, candle 660 101.75 98.25 100,
      candle 720 104 96 100, candle 780 104 96 100, candle 840 104 96 100,
      candle 900 104 96 100, candle 960 104 96 100, candle 1020 104 96 100,
      candle 1080 104 96 100, candle 1140 103 95 99, candle 1200 136 84 110]"


section \<open>Notions used to state the properties of the scan\<close>

text \<open>
  The indicator indices at which the scan loop runs its body: the loop starts at 1, and the
  body is guarded by \<open>cvIndex \<ge> 0\<close> and \<open>i + offset < ohlcvData.length\<close>.
\<close>

definition scanned :: "nat \<Rightarrow> nat \<Rightarrow> nat \<Rightarrow> nat \<Rightarrow> bool" where
  "scanned n rsiLen cvLen i =
     (1 \<le> i \<and> i < rsiLen \<and> int cvLen - int rsiLen + int i \<ge> 0 \<and> i + offset < n)"

text \<open>
  Reading a marker list as a two-state machine: \<open>phase h ms\<close> is whether a position is
  open after the markers \<open>ms\<close>, starting from \<open>h\<close>, and \<open>None\<close> if a \<open>Buy\<close> occurs while a
  position is open or a \<open>Sell\<close> while none is.  \<open>open_after\<close> is the time of the open
  position's \<open>Buy\<close>, and \<open>closed_pairs\<close> pairs each \<open>Sell\<close> with the \<open>Buy\<close> that opened
  the position it closes.
\<close>

fun phase :: "bool \<Rightarrow> marker list \<Rightarrow> bool option" where
  "phase h [] = Some h"
| "phase h (Buy t # ms) = (if h then None else phase True ms)"
| "phase h (Sell t # ms) = (if h then phase False ms else None)"
| "phase h (m # ms) = phase h ms"

fun open_after :: "int option \<Rightarrow> marker list \<Rightarrow> int option" where
  "open_after b [] = b"
| "open_after b (Buy t # ms) = open_after (Some t) ms"
| "open_after b (Sell t # ms) = open_after None ms"
| "open_after b (m # ms) = open_after b ms"

fun closed_pairs :: "int option \<Rightarrow> marker list \<Rightarrow> (int \<times> int) list" where
  "closed_pairs b [] = []"
| "closed_pairs b (Buy t # ms) = closed_pairs (Some t) ms"
| "closed_pairs b (Sell t # ms) =
     (case b of None \<Rightarrow> closed_pairs None ms | Some t0 \<Rightarrow> (t0, t) # closed_pairs None ms)"
| "closed_pairs b (m # ms) = closed_pairs b ms"

fun primary :: "marker \<Rightarrow> bool" where
  "primary (AllBuy t) = False"
| "primary (AllSell t) = False"
| "primary m = True"

text \<open>
  The invariant of the scan before index \<open>k\<close>, for candles with ascending times: every
  recorded time lies before the candles the scan has yet to read.
\<close>

definition before :: "ohlcv list \<Rightarrow> nat \<Rightarrow> int \<Rightarrow> bool" where
  "before cs k t = (\<forall>j. k + offset \<le> j \<and> j < length cs \<longrightarrow> t < time (cs ! j))"

definition scan_inv :: "ohlcv list \<Rightarrow> nat \<Rightarrow> scan_state \<Rightarrow> bool" where
  "scan_inv cs k st =
     ((\<forall>t \<in> set (completedTrades st). buyTime t < sellTime t)
      \<and> (case activeBuySignal st of None \<Rightarrow> True | Some (bt, bp) \<Rightarrow> before cs k bt)
      \<and> sorted (map marker_time (signals st))
      \<and> (\<forall>m \<in> set (signals st). before cs k (marker_time m) \<and> primary m)
      \<and> (\<forall>m \<in> set (allSignals st). \<not> primary m)
      \<and> phase False (signals st) = Some (activeBuySignal st \<noteq> None)
      \<and> open_after None (signals st) = map_option fst (activeBuySignal st)
      \<and> closed_pairs None (signals st)
          = map (\<lambda>t. (buyTime t, sellTime t)) (completedTrades st))"

text \<open>
  The Chaikin value the scan pairs with indicator index \<open>i\<close>, and the markers the
  ``all signals'' block pushes at one index.
\<close>

definition aligned_cv :: "number list \<Rightarrow> number list \<Rightarrow> nat \<Rightarrow> number" where
  "aligned_cv cvValues rsiValues i =
     nth_num cvValues (nat (int (length cvValues) - int (length rsiValues) + int i))"

definition all_extra ::
  "bool \<Rightarrow> 'a SignalParameters_scheme \<Rightarrow> number \<Rightarrow> number \<Rightarrow> int \<Rightarrow> marker list" where
  "all_extra showAllSignals parameters cv rsi t =
     (if showAllSignals then
        (if buy_condition parameters cv rsi then [AllBuy t] else [])
        @ (if sell_condition parameters cv rsi then [AllSell t] else [])
      else [])"

text \<open>
  Two series of 30 closes that agree on the candles 0 to 14 (and everywhere but at
  candle 15): flat at 100, with a dip to 90 or a rise to 110 at candle 15.
\<close>

definition dip_closes :: "number list" where
  "dip_closes = map Fin
     [100, 100, 100, 100, 100, 100, 100, 100, 100, 100, 100, 100, 100, 100, 100,
      90, 100, 100, 100, 100, 100, 100, 100, 100, 100, 100, 100, 100, 100, 100]"

definition rise_closes :: "number list" where
  "rise_closes = map Fin
     [100, 100, 100, 100, 100, 100, 100, 100, 100, 100, 100, 100, 100, 100, 100,
      110, 100, 100, 100, 100, 100, 100, 100, 100, 100, 100, 100, 100, 100, 100]"

section \<open>Notions used to state the properties of a run\<close>






text \<open>
  Inputs of the example runs: one candle (every evaluation has no trade and profit 0), two
  constant random sources, and four clock readings (start, loop test, improvement, loop
  test after the budget).
\<close>

definition one_candle :: "ohlcv list" where
  "one_candle = [candle 0 101 99 100]"

definition rnd_half :: rng where
  "rnd_half = (\<lambda>n. 1 / 2)"

definition rnd_zero :: rng where
  "rnd_zero = (\<lambda>n. 0)"

definition example_clock :: "int list" where
  "example_clock = [1700000000000, 1700000000001, 1700000000002, 1700000005003]"

definition params_half :: SignalParameters where
  "params_half =
     \<lparr>buyRsiThreshold = Fin 50, buyCvThreshold = Fin (- 25),
      sellRsiThreshold = Fin 50, sellCvThreshold = Fin 200\<rparr>"

definition params_zero :: SignalParameters where
  "params_zero =
     \<lparr>buyRsiThreshold = Fin 0, buyCvThreshold = Fin (- 50),
      sellRsiThreshold = Fin 0, sellCvThreshold = Fin 0\<rparr>"




section \<open>Lengths of the indicator series\<close>

lemma length_rsi_loop: "length (rsi_loop closes period gl is) = length is"
  by (induction "is" arbitrary: gl) (auto simp: Let_def split: prod.splits)

lemma length_calculateRSI:
  "length (calculateRSI closes period) = length closes - (period + 1)"
  by (simp add: calculateRSI_def length_rsi_loop split: prod.splits)

lemma length_ema_loop: "length (ema_loop m p xs) = length xs"
  by (induction xs arbitrary: p) (simp_all add: Let_def)

lemma cv_empty: "calculateChaikinVolatility [] lows len = Inl TypeError"
  by (simp add: calculateChaikinVolatility_def reduce_sum_def)

lemma cv_nonempty:
  assumes "highs \<noteq> []" "0 < len"
  shows "\<exists>cv. calculateChaikinVolatility highs lows len = Inr cv
           \<and> length cv = Suc (length highs - len) - len"
proof -
  let ?hl = "map (\<lambda>(i, h). h - nth_num lows i) (enumerate 0 highs)"
  have "take len ?hl \<noteq> []"
    using assms by (cases highs; cases len) auto
  then obtain x rest where "take len ?hl = x # rest"
    by (cases "take len ?hl") auto
  then show ?thesis
    by (auto simp add: calculateChaikinVolatility_def reduce_sum_def Let_def length_ema_loop)
qed

section \<open>Evaluation of the reference series\<close>

lemmas eval_simps = nth_num_def strict_eq_def Let_def candle_def enumerate_eq_zip reduce_sum_def
  upt_rec[of _ "numeral _"] upt_rec[of _ "Suc _"]

lemma example_rsi:
  "calculateRSI (map close example_candles) 14
     = [Fin 100, Fin 100, Fin 100, Fin 100, Fin 0, Fin (15400 / 167)]"
  by (simp add: calculateRSI_def example_candles_def eval_simps)

lemma example_cv:
  "calculateChaikinVolatility (map high example_candles) (map low example_candles) 10
     = Inr [Fin (- (300 / 11)), Fin (700 / 9)]"
  by (simp add: calculateChaikinVolatility_def example_candles_def eval_simps)

lemma example_length: "length example_candles = 21"
  by (simp add: example_candles_def)

lemma example_nth:
  "example_candles ! 18 = candle 1080 104 96 100"
  "example_candles ! 19 = candle 1140 103 95 99"
  by (simp_all add: example_candles_def)

lemma example_result:
  "generateTradingSignals example_candles default_parameters False =
     Inr \<lparr>finalSignals = [Buy 1080, Sell 1140, PercentLabel 1140 (Fin (- 1))],
          tradeAnalytics =
            \<lparr>initialInvestment = Fin 1000, currentPortfolioValue = Fin 990,
             totalPercentageChange = Fin (- 1),
             trades = [\<lparr>buyTime = 1080, sellTime = 1140, buyPrice = Fin 100,
                        sellPrice = Fin 99, percentageChange = Fin (- 1)\<rparr>]\<rparr>,
          profit = Fin (- 1), numTrades = 1\<rparr>"
  by (simp add: generateTradingSignals_def example_rsi example_cv scan_step_def scan_init_def
        example_length example_nth offset_def buy_condition_def sell_condition_def
        default_parameters_def portfolio_value_def calculatePercentageChange_def eval_simps)

section \<open>Empty input\<close>

text \<open>
  C1.  The claim: for an empty candle array \<open>generateTradingSignals\<close> returns the zero
  result without throwing, and both indicator functions return empty series.  The code:
  \<open>calculateRSI\<close> does return the empty series, but \<open>calculateChaikinVolatility\<close> calls
  \<open>reduce\<close> without an initial value on the empty slice, which throws a \<open>TypeError\<close>, and
  \<open>generateTradingSignals\<close> lets it escape.
\<close>

theorem empty_candles_throw:
  "generateTradingSignals [] parameters showAllSignals = Inl TypeError
   \<and> calculateChaikinVolatility [] [] 10 = Inl TypeError
   \<and> calculateRSI [] 14 = []"
proof -
  have "length (calculateRSI [] 14) = 0"
    by (simp add: length_calculateRSI)
  then show ?thesis
    by (simp add: generateTradingSignals_def cv_empty)
qed

section \<open>Length of the RSI series\<close>

text \<open>
  C6.  For every array of closes and every period, \<open>calculateRSI\<close> returns
  \<open>closes.length - period - 1\<close> values when \<open>closes.length \<ge> period + 1\<close>, and the empty
  array when \<open>closes.length < period + 1\<close>.
\<close>

theorem calculateRSI_length:
  "(period + 1 \<le> length closes \<longrightarrow>
      length (calculateRSI closes period) = length closes - period - 1)
   \<and> (length closes < period + 1 \<longrightarrow> calculateRSI closes period = [])"
  using length_calculateRSI[of closes period] by auto

theorem calculateRSI_length_witness:
  "14 + 1 \<le> length (replicate 17 (Fin 1))
   \<and> length (calculateRSI (replicate 17 (Fin 1)) 14) = 2
   \<and> length [Fin 1, Fin 2] < 14 + 1
   \<and> calculateRSI [Fin 1, Fin 2] 14 = []"
  using calculateRSI_length[of 14 "replicate 17 (Fin 1)"]
        calculateRSI_length[of 14 "[Fin 1, Fin 2]"]
  by simp

section \<open>Compounding\<close>








section \<open>The scan keeps at most one position open\<close>

lemma foldl_upt_inv:
  assumes "P a st" and "\<And>i st. a \<le> i \<Longrightarrow> i < b \<Longrightarrow> P i st \<Longrightarrow> P (Suc i) (f st i)" and "a \<le> b"
  shows "P b (foldl f st [a..<b])"
  using assms
proof (induction b)
  case 0
  then show ?case by simp
next
  case (Suc b)
  show ?case
  proof (cases "a = Suc b")
    case True
    with Suc.prems show ?thesis by simp
  next
    case False
    with Suc.prems have le: "a \<le> b" by simp
    have "P b (foldl f st [a..<b])"
      using Suc.IH[OF Suc.prems(1) _ le] Suc.prems(2) by simp
    then have "P (Suc b) (f (foldl f st [a..<b]) b)"
      using Suc.prems(2)[of b] le by simp
    then show ?thesis using le by simp
  qed
qed

lemma phase_append:
  "phase h (xs @ ys) = (case phase h xs of None \<Rightarrow> None | Some h2 \<Rightarrow> phase h2 ys)"
  by (induction h xs rule: phase.induct) auto

lemma open_after_append: "open_after b (xs @ ys) = open_after (open_after b xs) ys"
  by (induction b xs rule: open_after.induct) auto

lemma closed_pairs_append:
  "closed_pairs b (xs @ ys) = closed_pairs b xs @ closed_pairs (open_after b xs) ys"
  by (induction b xs rule: closed_pairs.induct) (auto split: option.splits)

lemma before_mono: "before cs k t \<Longrightarrow> k \<le> k2 \<Longrightarrow> before cs k2 t"
  by (auto simp: before_def)

lemma before_new:
  assumes "sorted_wrt (<) (map time cs)" "i + offset < length cs"
  shows "before cs (Suc i) (time (cs ! (i + offset)))"
  unfolding before_def
proof (intro allI impI)
  fix j assume j: "Suc i + offset \<le> j \<and> j < length cs"
  then have "map time cs ! (i + offset) < map time cs ! j"
    using sorted_wrt_nth_less[OF assms(1), of "i + offset" j] by simp
  then show "time (cs ! (i + offset)) < time (cs ! j)"
    using j assms(2) by simp
qed

lemma before_now:
  "before cs i t \<Longrightarrow> i + offset < length cs \<Longrightarrow> t < time (cs ! (i + offset))"
  by (auto simp: before_def)

lemma scan_step_skip:
  assumes "\<not> (int (length cv) - int (length rsi) + int i \<ge> 0 \<and> i + offset < length cs)"
  shows "scan_step cs p s rsi cv st i = st"
  using assms unfolding scan_step_def Let_def by (simp only: if_False)



lemma scan_step_buy:
  assumes "int (length cv) - int (length rsi) + int i \<ge> 0" "i + offset < length cs"
    and "activeBuySignal st = None"
    and "buy_condition p (aligned_cv cv rsi i) (nth_num rsi i)"
  shows "scan_step cs p s rsi cv st i =
           st\<lparr>activeBuySignal := Some (time (cs ! (i + offset)), close (cs ! (i + offset))),
              signals := signals st @ [Buy (time (cs ! (i + offset)))],
              allSignals := allSignals st @
                all_extra s p (aligned_cv cv rsi i) (nth_num rsi i) (time (cs ! (i + offset)))\<rparr>"
  using assms by (simp add: scan_step_def Let_def all_extra_def aligned_cv_def)

lemma scan_step_sell:
  assumes "int (length cv) - int (length rsi) + int i \<ge> 0" "i + offset < length cs"
    and "activeBuySignal st = Some (bt, bp)"
    and "sell_condition p (aligned_cv cv rsi i) (nth_num rsi i)"
  shows "scan_step cs p s rsi cv st i =
           st\<lparr>activeBuySignal := None,
              completedTrades := completedTrades st @
                [\<lparr>buyTime = bt, sellTime = time (cs ! (i + offset)), buyPrice = bp,
                  sellPrice = close (cs ! (i + offset)),
                  percentageChange = calculatePercentageChange bp (close (cs ! (i + offset)))\<rparr>],
              signals := signals st @
                [Sell (time (cs ! (i + offset))),
                 PercentLabel (time (cs ! (i + offset)))
                   (calculatePercentageChange bp (close (cs ! (i + offset))))],
              allSignals := allSignals st @
                all_extra s p (aligned_cv cv rsi i) (nth_num rsi i) (time (cs ! (i + offset)))\<rparr>"
  using assms by (simp add: scan_step_def Let_def all_extra_def aligned_cv_def)

lemma scan_step_idle:
  assumes "int (length cv) - int (length rsi) + int i \<ge> 0" "i + offset < length cs"
    and "activeBuySignal st = None \<longrightarrow> \<not> buy_condition p (aligned_cv cv rsi i) (nth_num rsi i)"
    and "activeBuySignal st \<noteq> None \<longrightarrow> \<not> sell_condition p (aligned_cv cv rsi i) (nth_num rsi i)"
  shows "scan_step cs p s rsi cv st i =
           st\<lparr>allSignals := allSignals st @
                all_extra s p (aligned_cv cv rsi i) (nth_num rsi i) (time (cs ! (i + offset)))\<rparr>"
proof (cases "activeBuySignal st")
  case None
  with assms show ?thesis
    by (simp add: scan_step_def Let_def all_extra_def aligned_cv_def)
next
  case (Some a)
  obtain bt bp where "a = (bt, bp)" by (cases a)
  with Some assms show ?thesis
    by (simp add: scan_step_def Let_def all_extra_def aligned_cv_def)
qed

lemma all_extra_not_primary: "m \<in> set (all_extra s p c r t) \<Longrightarrow> \<not> primary m \<and> marker_time m = t"
  by (auto simp: all_extra_def split: if_splits)


lemma scan_inv_step:
  assumes srt: "sorted_wrt (<) (map time cs)" and inv: "scan_inv cs i st"
  shows "scan_inv cs (Suc i) (scan_step cs p s rsi cv st i)"
proof (cases "int (length cv) - int (length rsi) + int i \<ge> 0 \<and> i + offset < length cs")
  case False
  then have "scan_step cs p s rsi cv st i = st" by (rule scan_step_skip)
  moreover have "scan_inv cs (Suc i) st"
    using inv before_mono[of cs i _ "Suc i"]
    by (auto simp: scan_inv_def split: option.splits)
  ultimately show ?thesis by simp
next
  case True
  then have lt: "i + offset < length cs" and ge: "int (length cv) - int (length rsi) + int i \<ge> 0"
    by simp_all
  let ?c = "cs ! (i + offset)"
  let ?ex = "all_extra s p (aligned_cv cv rsi i) (nth_num rsi i) (time ?c)"
  note bn = before_new[OF srt lt]
  have bm: "\<And>t. before cs i t \<Longrightarrow> before cs (Suc i) t"
    using before_mono[of cs i _ "Suc i"] by simp
  have bl: "\<And>t. before cs i t \<Longrightarrow> t < time ?c"
    using before_now[OF _ lt] by simp
  have ex: "\<forall>m \<in> set ?ex. \<not> primary m"
    using all_extra_not_primary by blast
  have i1: "\<forall>t \<in> set (completedTrades st). buyTime t < sellTime t"
    and i3: "sorted (map marker_time (signals st))"
    and i4: "\<forall>m \<in> set (signals st). before cs i (marker_time m) \<and> primary m"
    and i5: "\<forall>m \<in> set (allSignals st). \<not> primary m"
    and i6: "phase False (signals st) = Some (activeBuySignal st \<noteq> None)"
    and i7: "open_after None (signals st) = map_option fst (activeBuySignal st)"
    and i8: "closed_pairs None (signals st)
          = map (\<lambda>t. (buyTime t, sellTime t)) (completedTrades st)"
    using inv by (simp_all add: scan_inv_def)
  have i4le: "\<forall>m \<in> set (signals st). marker_time m \<le> time ?c"
    using i4 bl by (auto simp: less_imp_le)
  have i4s: "\<forall>m \<in> set (signals st). before cs (Suc i) (marker_time m) \<and> primary m"
    using i4 bm by auto
  consider
    (buy) "activeBuySignal st = None"
          "buy_condition p (aligned_cv cv rsi i) (nth_num rsi i)"
  | (sell) bt bp where "activeBuySignal st = Some (bt, bp)"
          "sell_condition p (aligned_cv cv rsi i) (nth_num rsi i)"
  | (idle) "activeBuySignal st = None \<longrightarrow> \<not> buy_condition p (aligned_cv cv rsi i) (nth_num rsi i)"
           "activeBuySignal st \<noteq> None \<longrightarrow> \<not> sell_condition p (aligned_cv cv rsi i) (nth_num rsi i)"
    by (cases "activeBuySignal st") auto
  then show ?thesis
  proof cases
    case buy
    show ?thesis
      unfolding scan_step_buy[OF ge lt buy]
      using i1 i3 i4le i4s i5 i6 i7 i8 ex bn buy(1)
      by (simp add: scan_inv_def phase_append open_after_append closed_pairs_append
            sorted_append ball_Un)
  next
    case sell
    have "before cs i bt"
      using inv sell(1) by (simp add: scan_inv_def)
    then have "bt < time ?c" by (rule bl)
    then show ?thesis
      unfolding scan_step_sell[OF ge lt sell]
      using i1 i3 i4le i4s i5 i6 i7 i8 ex bn sell(1)
      by (simp add: scan_inv_def phase_append open_after_append closed_pairs_append
            sorted_append ball_Un)
  next
    case idle
    have "case activeBuySignal st of None \<Rightarrow> True | Some (bt, bp) \<Rightarrow> before cs (Suc i) bt"
      using inv bm by (auto simp: scan_inv_def split: option.splits)
    then show ?thesis
      unfolding scan_step_idle[OF ge lt idle]
      using i1 i3 i4s i5 i6 i7 i8 ex
      by (simp add: scan_inv_def ball_Un)
  qed
qed

lemma scan_inv_init: "scan_inv cs k scan_init"
  by (simp add: scan_inv_def scan_init_def)

lemma scan_inv_fold:
  assumes "sorted_wrt (<) (map time cs)"
  shows "scan_inv cs (max 1 L) (foldl (scan_step cs p s rsi cv) scan_init [1..<L])"
proof (cases "1 \<le> L")
  case True
  have "scan_inv cs L (foldl (scan_step cs p s rsi cv) scan_init [1..<L])"
    using True
    by (intro foldl_upt_inv[where P = "scan_inv cs"])
       (auto intro: scan_inv_init scan_inv_step[OF assms])
  with True show ?thesis by (simp add: max_def)
next
  case False
  then show ?thesis by (simp add: scan_inv_init)
qed


lemma phase_filter: "phase h (filter primary ms) = phase h ms"
  by (induction h ms rule: phase.induct) auto

lemma closed_pairs_filter: "closed_pairs b (filter primary ms) = closed_pairs b ms"
  by (induction b ms rule: closed_pairs.induct) (auto split: option.splits)

lemma primary_sorted_merge:
  assumes "sorted (map marker_time xs)" "\<forall>m \<in> set xs. primary m" "\<forall>m \<in> set ys. \<not> primary m"
  shows "filter primary (sort_key marker_time (xs @ ys)) = xs"
proof -
  have "filter primary (xs @ ys) = xs"
    using assms(2,3) by (simp add: filter_id_conv filter_empty_conv)
  then have "filter primary (sort_key marker_time (xs @ ys)) = sort_key marker_time xs"
    by (simp add: filter_sort)
  then show ?thesis
    using assms(1) by (simp add: sort_key_id_if_sorted)
qed

lemma example_sorted: "sorted_wrt (<) (map time example_candles)"
  by (simp add: example_candles_def candle_def)

text \<open>
  C8.  For candles with strictly ascending times and any parameters, every result of
  \<open>generateTradingSignals\<close> has \<open>numTrades\<close> equal to the length of the trade list and
  every trade sells after it buys.  At most one position is open at any point of the
  scan: read in order, the \<open>Buy\<close> and \<open>Sell\<close> markers of the result alternate, starting
  with a \<open>Buy\<close> (no position is opened while one is open, none is closed while none is
  open), and the trades are exactly the \<open>Sell\<close> markers, each paired with the \<open>Buy\<close>
  that opened the position it closes.
\<close>

theorem one_position_at_a_time:
  assumes "sorted_wrt (<) (map time ohlcvData)"
    and "generateTradingSignals ohlcvData parameters showAllSignals = Inr r"
  shows "numTrades r = length (trades (tradeAnalytics r))
    \<and> (\<forall>t \<in> set (trades (tradeAnalytics r)). buyTime t < sellTime t)
    \<and> phase False (finalSignals r) \<noteq> None
    \<and> map (\<lambda>t. (buyTime t, sellTime t)) (trades (tradeAnalytics r))
        = closed_pairs None (finalSignals r)"
proof -
  let ?rsi = "calculateRSI (map close ohlcvData) 14"
  obtain cv where cv: "calculateChaikinVolatility (map high ohlcvData) (map low ohlcvData) 10 = Inr cv"
    using assms(2) by (auto simp: generateTradingSignals_def Let_def split: sum.splits)
  let ?st = "foldl (scan_step ohlcvData parameters showAllSignals ?rsi cv) scan_init
               [1..<length ?rsi]"
  have inv: "scan_inv ohlcvData (max 1 (length ?rsi)) ?st"
    by (rule scan_inv_fold[OF assms(1)])
  have r1: "trades (tradeAnalytics r) = completedTrades ?st"
    and r2: "numTrades r = length (completedTrades ?st)"
    and r3: "finalSignals r = (if showAllSignals
                 then sort_key marker_time (signals ?st @ allSignals ?st) else signals ?st)"
    using assms(2) cv by (auto simp: generateTradingSignals_def Let_def)
  have prim: "filter primary (finalSignals r) = signals ?st"
  proof (cases showAllSignals)
    case True
    then show ?thesis
      using r3 inv primary_sorted_merge[of "signals ?st" "allSignals ?st"]
      by (simp add: scan_inv_def)
  next
    case False
    then show ?thesis
      using r3 inv by (simp add: scan_inv_def filter_id_conv)
  qed
  have "phase False (finalSignals r) = phase False (signals ?st)"
    using phase_filter[of False "finalSignals r"] prim by simp
  moreover have "closed_pairs None (finalSignals r) = closed_pairs None (signals ?st)"
    using closed_pairs_filter[of None "finalSignals r"] prim by simp
  ultimately show ?thesis
    using inv r1 r2 by (simp add: scan_inv_def)
qed

theorem one_position_at_a_time_witness:
  "sorted_wrt (<) (map time example_candles)
   \<and> generateTradingSignals example_candles default_parameters False =
     Inr \<lparr>finalSignals = [Buy 1080, Sell 1140, PercentLabel 1140 (Fin (- 1))],
          tradeAnalytics =
            \<lparr>initialInvestment = Fin 1000, currentPortfolioValue = Fin 990,
             totalPercentageChange = Fin (- 1),
             trades = [\<lparr>buyTime = 1080, sellTime = 1140, buyPrice = Fin 100,
                        sellPrice = Fin 99, percentageChange = Fin (- 1)\<rparr>]\<rparr>,
          profit = Fin (- 1), numTrades = 1\<rparr>
   \<and> phase False [Buy 1080, Sell 1140, PercentLabel 1140 (Fin (- 1))] \<noteq> None
   \<and> closed_pairs None [Buy 1080, Sell 1140, PercentLabel 1140 (Fin (- 1))] = [(1080, 1140)]"
  using one_position_at_a_time[OF example_sorted example_result] example_sorted example_result
  by simp

section \<open>The range of the scan\<close>

lemma foldl_inv_set:
  assumes "P st" and "\<And>x st. x \<in> set xs \<Longrightarrow> P st \<Longrightarrow> P (f st x)"
  shows "P (foldl f st xs)"
  using assms by (induction xs arbitrary: st) auto

lemma foldl_filter_skip:
  assumes "\<And>x st. x \<in> set xs \<Longrightarrow> \<not> P x \<Longrightarrow> f st x = st"
  shows "foldl f st (filter P xs) = foldl f st xs"
  using assms by (induction xs arbitrary: st) auto

lemma filter_scanned_from_0:
  "filter (scanned n L C) [0..<L] = filter (scanned n L C) [1..<L]"
proof (cases L)
  case 0
  then show ?thesis by simp
next
  case (Suc k)
  then have "[0..<L] = 0 # [1..<L]" by (simp add: upt_rec)
  then show ?thesis by (simp add: scanned_def)
qed

lemma scan_over_scanned:
  "foldl (scan_step cs p s rsi cv) st [1..<length rsi]
     = foldl (scan_step cs p s rsi cv) st
         (filter (scanned (length cs) (length rsi) (length cv)) [0..<length rsi])"
proof -
  have "foldl (scan_step cs p s rsi cv) st
          (filter (scanned (length cs) (length rsi) (length cv)) [1..<length rsi])
        = foldl (scan_step cs p s rsi cv) st [1..<length rsi]"
  proof (rule foldl_filter_skip)
    fix x st
    assume "x \<in> set [1..<length rsi]" "\<not> scanned (length cs) (length rsi) (length cv) x"
    then have "\<not> (int (length cv) - int (length rsi) + int x \<ge> 0 \<and> x + offset < length cs)"
      by (auto simp: scanned_def)
    then show "scan_step cs p s rsi cv st x = st" by (rule scan_step_skip)
  qed
  then show ?thesis by (simp add: filter_scanned_from_0)
qed

lemma scan_times:
  fixes cs :: "ohlcv list" and rsi cv :: "number list"
  defines "T \<equiv> \<lambda>t. \<exists>i. scanned (length cs) (length rsi) (length cv) i \<and> t = time (cs ! (i + offset))"
  defines "Q \<equiv> \<lambda>st. (\<forall>m \<in> set (signals st). T (marker_time m))
                    \<and> (\<forall>m \<in> set (allSignals st). T (marker_time m))
                    \<and> (\<forall>t \<in> set (completedTrades st). T (buyTime t) \<and> T (sellTime t))
                    \<and> (\<forall>bt bp. activeBuySignal st = Some (bt, bp) \<longrightarrow> T bt)"
  shows "Q (foldl (scan_step cs p s rsi cv) scan_init [1..<length rsi])"
proof (rule foldl_inv_set)
  show "Q scan_init" by (simp add: Q_def scan_init_def)
next
  fix i st
  assume i: "i \<in> set [1..<length rsi]" and q: "Q st"
  show "Q (scan_step cs p s rsi cv st i)"
  proof (cases "int (length cv) - int (length rsi) + int i \<ge> 0 \<and> i + offset < length cs")
    case False
    then have "scan_step cs p s rsi cv st i = st" by (rule scan_step_skip)
    with q show ?thesis by simp
  next
    case True
    then have lt: "i + offset < length cs"
      and ge: "int (length cv) - int (length rsi) + int i \<ge> 0" by simp_all
    have "scanned (length cs) (length rsi) (length cv) i"
      using i True by (simp add: scanned_def)
    then have tc: "T (time (cs ! (i + offset)))" by (auto simp: T_def)
    have ex: "\<forall>m \<in> set (all_extra s p (aligned_cv cv rsi i) (nth_num rsi i)
                 (time (cs ! (i + offset)))). T (marker_time m)"
      using all_extra_not_primary tc by metis
    consider
      (buy) "activeBuySignal st = None"
            "buy_condition p (aligned_cv cv rsi i) (nth_num rsi i)"
    | (sell) bt bp where "activeBuySignal st = Some (bt, bp)"
            "sell_condition p (aligned_cv cv rsi i) (nth_num rsi i)"
    | (idle) "activeBuySignal st = None \<longrightarrow> \<not> buy_condition p (aligned_cv cv rsi i) (nth_num rsi i)"
             "activeBuySignal st \<noteq> None \<longrightarrow> \<not> sell_condition p (aligned_cv cv rsi i) (nth_num rsi i)"
      by (cases "activeBuySignal st") auto
    then show ?thesis
    proof cases
      case buy
      show ?thesis
        unfolding scan_step_buy[OF ge lt buy]
        using q tc ex by (simp add: Q_def ball_Un)
    next
      case sell
      have "T bt" using q sell(1) by (simp add: Q_def)
      then show ?thesis
        unfolding scan_step_sell[OF ge lt sell]
        using q tc ex by (simp add: Q_def ball_Un)
    next
      case idle
      show ?thesis
        unfolding scan_step_idle[OF ge lt idle]
        using q tc ex by (simp add: Q_def ball_Un)
    qed
  qed
qed

text \<open>
  C10.  The scan never runs its body at indicator index 0, and runs it at index \<open>i\<close> only
  when the aligned Chaikin index \<open>cvValues.length - rsiValues.length + i\<close> is non-negative
  and \<open>i + 14\<close> is a valid candle index: the scan is the fold of its body over exactly
  those indices.  Hence every marker and every trade of the result carries the time of a
  candle \<open>i + 14\<close> for such an \<open>i\<close>, which is candle 15 or later, and when the Chaikin
  series is shorter than the RSI series the leading indices are skipped.
\<close>

theorem scan_range:
  assumes "generateTradingSignals ohlcvData parameters showAllSignals = Inr r"
  shows "\<exists>cv. calculateChaikinVolatility (map high ohlcvData) (map low ohlcvData) 10 = Inr cv \<and>
    (let rsi = calculateRSI (map close ohlcvData) 14;
         ok = scanned (length ohlcvData) (length rsi) (length cv);
         body = scan_step ohlcvData parameters showAllSignals rsi cv
     in foldl body scan_init [1..<length rsi] = foldl body scan_init (filter ok [0..<length rsi])
        \<and> (\<forall>m \<in> set (finalSignals r).
              \<exists>i. ok i \<and> marker_time m = time (ohlcvData ! (i + 14)))
        \<and> (\<forall>t \<in> set (trades (tradeAnalytics r)).
              \<exists>i j. ok i \<and> ok j \<and> buyTime t = time (ohlcvData ! (i + 14))
                    \<and> sellTime t = time (ohlcvData ! (j + 14)))
        \<and> (\<forall>i. ok i \<longrightarrow> i \<noteq> 0 \<and> 15 \<le> i + 14 \<and> i + 14 < length ohlcvData
                    \<and> 0 \<le> int (length cv) - int (length rsi) + int i
                    \<and> length rsi - length cv \<le> i))"
proof -
  let ?rsi = "calculateRSI (map close ohlcvData) 14"
  obtain cv where cv: "calculateChaikinVolatility (map high ohlcvData) (map low ohlcvData) 10 = Inr cv"
    using assms by (auto simp: generateTradingSignals_def Let_def split: sum.splits)
  let ?st = "foldl (scan_step ohlcvData parameters showAllSignals ?rsi cv) scan_init
               [1..<length ?rsi]"
  let ?ok = "scanned (length ohlcvData) (length ?rsi) (length cv)"
  have r1: "trades (tradeAnalytics r) = completedTrades ?st"
    and r3: "set (finalSignals r) \<subseteq> set (signals ?st) \<union> set (allSignals ?st)"
    using assms cv by (auto simp: generateTradingSignals_def Let_def split: if_splits)
  note q = scan_times[where cs = ohlcvData and rsi = ?rsi and cv = cv and p = parameters
      and s = showAllSignals]
  have m: "\<forall>m \<in> set (finalSignals r). \<exists>i. ?ok i \<and> marker_time m = time (ohlcvData ! (i + 14))"
    using q r3 unfolding offset_def by blast
  have t: "\<forall>t \<in> set (trades (tradeAnalytics r)).
              \<exists>i j. ?ok i \<and> ?ok j \<and> buyTime t = time (ohlcvData ! (i + 14))
                    \<and> sellTime t = time (ohlcvData ! (j + 14))"
    using q r1 unfolding offset_def by metis
  have g: "\<forall>i. ?ok i \<longrightarrow> i \<noteq> 0 \<and> 15 \<le> i + 14 \<and> i + 14 < length ohlcvData
                    \<and> 0 \<le> int (length cv) - int (length ?rsi) + int i
                    \<and> length ?rsi - length cv \<le> i"
    by (auto simp: scanned_def offset_def)
  show ?thesis
    using cv m t g scan_over_scanned[where cs = ohlcvData and p = parameters and s = showAllSignals
        and rsi = ?rsi and cv = cv and st = scan_init]
    by (simp add: Let_def)
qed


theorem scan_range_witness:
  "generateTradingSignals example_candles default_parameters False =
     Inr \<lparr>finalSignals = [Buy 1080, Sell 1140, PercentLabel 1140 (Fin (- 1))],
          tradeAnalytics =
            \<lparr>initialInvestment = Fin 1000, currentPortfolioValue = Fin 990,
             totalPercentageChange = Fin (- 1),
             trades = [\<lparr>buyTime = 1080, sellTime = 1140, buyPrice = Fin 100,
                        sellPrice = Fin 99, percentageChange = Fin (- 1)\<rparr>]\<rparr>,
          profit = Fin (- 1), numTrades = 1\<rparr>
   \<and> (\<exists>i. scanned 21 6 2 i \<and> 1080 = time (example_candles ! (i + 14)))
   \<and> (\<exists>i. scanned 21 6 2 i \<and> 1140 = time (example_candles ! (i + 14)))"
proof -
  have l6: "length (calculateRSI (map close example_candles) 14) = 6"
    by (simp add: length_calculateRSI example_length)
  have l2: "length [Fin (- (300 / 11)), Fin (700 / 9)] = (2::nat)"
    by simp
  show ?thesis
    using scan_range[OF example_result] example_result
    by (simp add: Let_def example_cv l6 l2 example_length del: list.size length_Cons)
qed

section \<open>Round trips\<close>

lemma scan_step_flat_trades:
  assumes "activeBuySignal st = None"
  shows "completedTrades (scan_step cs p s rsi cv st i) = completedTrades st"
proof (cases "int (length cv) - int (length rsi) + int i \<ge> 0 \<and> i + offset < length cs")
  case False
  then show ?thesis by (simp add: scan_step_skip)
next
  case True
  then have lt: "i + offset < length cs"
    and ge: "int (length cv) - int (length rsi) + int i \<ge> 0" by simp_all
  show ?thesis
  proof (cases "buy_condition p (aligned_cv cv rsi i) (nth_num rsi i)")
    case True
    show ?thesis by (simp add: scan_step_buy[OF ge lt assms True])
  next
    case False
    then show ?thesis using assms by (simp add: scan_step_idle[OF ge lt])
  qed
qed

lemma filter_scanned_short:
  assumes "C \<le> 1"
  shows "filter (scanned n L C) [0..<L] = (if scanned n L C (L - 1) then [L - 1] else [])"
proof (cases L)
  case 0
  then show ?thesis by (simp add: scanned_def)
next
  case (Suc k)
  have "filter (scanned n L C) [0..<k] = []"
    using assms Suc by (auto simp: filter_empty_conv scanned_def)
  then show ?thesis using Suc by simp
qed

lemma zero_profit: "((Fin 1000 - Fin 1000) / Fin 1000) * Fin 100 = Fin 0"
  by simp

lemma short_series_no_trade:
  assumes "ohlcvData \<noteq> []" "length ohlcvData \<le> 20"
  shows "\<exists>r. generateTradingSignals ohlcvData parameters showAllSignals = Inr r
           \<and> trades (tradeAnalytics r) = [] \<and> numTrades r = 0 \<and> profit r = Fin 0"
proof -
  let ?rsi = "calculateRSI (map close ohlcvData) 14"
  obtain cv where cv: "calculateChaikinVolatility (map high ohlcvData) (map low ohlcvData) 10 = Inr cv"
    and len: "length cv = Suc (length (map high ohlcvData) - 10) - 10"
    using cv_nonempty[of "map high ohlcvData" 10 "map low ohlcvData"] assms(1) by auto
  have c1: "length cv \<le> 1" using len assms(2) by simp
  let ?body = "scan_step ohlcvData parameters showAllSignals ?rsi cv"
  let ?st = "foldl ?body scan_init [1..<length ?rsi]"
  have "?st = foldl ?body scan_init
                (if scanned (length ohlcvData) (length ?rsi) (length cv) (length ?rsi - 1)
                 then [length ?rsi - 1] else [])"
    by (simp only: scan_over_scanned filter_scanned_short[OF c1])
  then have "completedTrades ?st = []"
    by (simp add: scan_step_flat_trades scan_init_def)
  then show ?thesis
    using cv by (simp add: generateTradingSignals_def Let_def portfolio_value_def)
qed

text \<open>With fewer than 20 candles (but at least one) the result is the zero result.\<close>

lemma short_series_zero_result:
  assumes "ohlcvData \<noteq> []" "length ohlcvData < 20"
  shows "generateTradingSignals ohlcvData parameters showAllSignals =
           Inr \<lparr>finalSignals = [],
                tradeAnalytics =
                  \<lparr>initialInvestment = Fin 1000, currentPortfolioValue = Fin 1000,
                   totalPercentageChange = Fin 0, trades = []\<rparr>,
                profit = Fin 0, numTrades = 0\<rparr>"
proof -
  let ?rsi = "calculateRSI (map close ohlcvData) 14"
  obtain cv where cv: "calculateChaikinVolatility (map high ohlcvData) (map low ohlcvData) 10 = Inr cv"
    and len: "length cv = Suc (length (map high ohlcvData) - 10) - 10"
    using cv_nonempty[of "map high ohlcvData" 10 "map low ohlcvData"] assms(1) by auto
  have c0: "length cv = 0" using len assms(2) by simp
  have "filter (scanned (length ohlcvData) (length ?rsi) (length cv)) [0..<length ?rsi] = []"
    using c0 by (auto simp: filter_empty_conv scanned_def)
  then have "\<And>s. foldl (scan_step ohlcvData parameters s ?rsi cv) scan_init [1..<length ?rsi]
                = scan_init"
    by (simp only: scan_over_scanned foldl_Nil)
  then have st: "\<And>s. foldl (scan_step ohlcvData parameters s ?rsi cv) scan_init
                        [Suc 0..<length ?rsi] = scan_init"
    by simp
  show ?thesis
    using cv by (simp add: generateTradingSignals_def Let_def portfolio_value_def st)
       (simp add: scan_init_def)
qed










section \<open>Alignment of the RSI series\<close>

text \<open>
  Output index \<open>i\<close> of \<open>calculateRSI\<close> is the last value the function computes from the
  candles \<open>0\<close> to \<open>i + 15\<close> alone.
\<close>

lemma nth_num_take: "j < m \<Longrightarrow> nth_num (take m xs) j = nth_num xs j"
  by (simp add: nth_num_def)

lemma seed_loop_cong:
  assumes "\<And>i. i \<in> set idxs \<Longrightarrow> nth_num a i = nth_num b i \<and> nth_num a (i - 1) = nth_num b (i - 1)"
  shows "seed_loop a gl idxs = seed_loop b gl idxs"
  using assms
proof (induction idxs arbitrary: gl)
  case Nil
  then show ?case by (cases gl) simp
next
  case (Cons i idxs)
  obtain g l where gl: "gl = (g, l)" by (cases gl)
  have "nth_num a i = nth_num b i" "nth_num a (i - 1) = nth_num b (i - 1)"
    using Cons.prems[of i] by simp_all
  moreover have "\<And>gl2. seed_loop a gl2 idxs = seed_loop b gl2 idxs"
    using Cons.IH Cons.prems by simp
  ultimately show ?case by (simp add: gl Let_def)
qed

lemma rsi_loop_cong:
  assumes "\<And>i. i \<in> set idxs \<Longrightarrow> nth_num a i = nth_num b i \<and> nth_num a (i - 1) = nth_num b (i - 1)"
  shows "rsi_loop a p gl idxs = rsi_loop b p gl idxs"
  using assms
proof (induction idxs arbitrary: gl)
  case Nil
  then show ?case by (cases gl) simp
next
  case (Cons i idxs)
  obtain g l where gl: "gl = (g, l)" by (cases gl)
  have "nth_num a i = nth_num b i" "nth_num a (i - 1) = nth_num b (i - 1)"
    using Cons.prems[of i] by simp_all
  moreover have "\<And>gl2. rsi_loop a p gl2 idxs = rsi_loop b p gl2 idxs"
    using Cons.IH Cons.prems by simp
  ultimately show ?case by (simp add: gl Let_def)
qed

lemma rsi_loop_prefix:
  "take (length xs) (rsi_loop c p gl (xs @ ys)) = rsi_loop c p gl xs"
proof (induction xs arbitrary: gl)
  case Nil
  then show ?case by (cases gl) simp
next
  case (Cons i xs)
  obtain g l where gl: "gl = (g, l)" by (cases gl)
  show ?case using Cons.IH by (simp add: gl Let_def)
qed

lemma rsi_value_uses_prefix:
  assumes "i + 16 \<le> length closes"
  shows "calculateRSI closes 14 ! i = last (calculateRSI (take (i + 16) closes) 14)"
proof -
  let ?t = "take (i + 16) closes"
  obtain g l where seed: "seed_loop closes (Fin 0, Fin 0) [1..<14 + 1] = (g, l)"
    by (cases "seed_loop closes (Fin 0, Fin 0) [1..<14 + 1]")
  have "seed_loop ?t (Fin 0, Fin 0) [1..<14 + 1] = seed_loop closes (Fin 0, Fin 0) [1..<14 + 1]"
    by (rule seed_loop_cong) (auto simp: nth_num_take)
  then have seedt: "seed_loop ?t (Fin 0, Fin 0) [1..<14 + 1] = (g, l)"
    using seed by simp
  let ?gl = "(g / Fin (real (14::nat)), l / Fin (real (14::nat)))"
  have full: "calculateRSI closes 14 = rsi_loop closes 14 ?gl [15..<length closes]"
    using seed by (simp add: calculateRSI_def)
  have "calculateRSI ?t 14 = rsi_loop ?t 14 ?gl [15..<i + 16]"
    using seedt assms by (simp add: calculateRSI_def)
  also have "\<dots> = rsi_loop closes 14 ?gl [15..<i + 16]"
    by (rule rsi_loop_cong) (auto simp: nth_num_take)
  finally have pre: "calculateRSI ?t 14 = rsi_loop closes 14 ?gl [15..<i + 16]" .
  obtain m where m: "length closes = (i + 16) + m"
    using assms le_Suc_ex by blast
  have split: "[15..<length closes] = [15..<i + 16] @ [i + 16..<length closes]"
    unfolding m by (rule upt_add_eq_append) simp
  have len: "length (rsi_loop closes 14 ?gl [15..<i + 16]) = Suc i"
    by (simp add: length_rsi_loop)
  have "calculateRSI closes 14 ! i
          = take (length [15..<i + 16]) (rsi_loop closes 14 ?gl [15..<length closes]) ! i"
    using full by simp
  also have "\<dots> = rsi_loop closes 14 ?gl [15..<i + 16] ! i"
    by (simp only: split rsi_loop_prefix)
  also have "\<dots> = last (rsi_loop closes 14 ?gl [15..<i + 16])"
    using len by (metis diff_Suc_1 last_conv_nth length_0_conv nat.distinct(1))
  finally show ?thesis using pre by simp
qed

lemma dip_rsi0: "calculateRSI dip_closes 14 ! 0 = Fin 0"
  by (simp add: calculateRSI_def dip_closes_def eval_simps)

lemma rise_rsi0: "calculateRSI rise_closes 14 ! 0 = Fin 100"
  by (simp add: calculateRSI_def rise_closes_def eval_simps)

text \<open>
  C4.  The claim: RSI output index \<open>i\<close> is the RSI computed at candle \<open>i + 14\<close>, the candle
  the scan reads with it.  The code: the smoothing loop of \<open>calculateRSI\<close> starts at index
  \<open>period + 1 = 15\<close>, so output index 0 is computed from the difference
  \<open>closes[15] - closes[14]\<close> (in general, output index \<open>i\<close> is the value at candle
  \<open>i + 15\<close>, lemma \<open>rsi_value_uses_prefix\<close>).  Two series of 30 closes that agree on
  the candles 0 to 14 have different values at output index 0, which therefore is not a
  value computed at candle 14; the scan pairs it with candle \<open>0 + offset = 14\<close> all the
  same.
\<close>

theorem rsi_index_is_one_candle_late:
  "length dip_closes = 30 \<and> length rise_closes = 30
   \<and> take 15 dip_closes = take 15 rise_closes
   \<and> calculateRSI dip_closes 14 ! 0 = Fin 0
   \<and> calculateRSI rise_closes 14 ! 0 = Fin 100
   \<and> 0 + offset = 14"
  using dip_rsi0 rise_rsi0 by (simp add: dip_closes_def rise_closes_def offset_def)

section \<open>The optimizer\<close>

lemma randomNeighbor_cursor: "snd (randomNeighbor rnd k p) = k + 2"
  by (simp add: randomNeighbor_def Let_def)

lemma climb_loop_no_trades:
  assumes "\<And>p :: OptimizationResult. \<exists>r. generateTradingSignals d p False = Inr r \<and> numTrades r < 3"
  shows "climb_loop n d rnd k current st = Inr (current, st, k + 2 * n)"
proof (induction n arbitrary: k)
  case 0
  then show ?case by simp
next
  case (Suc n)
  obtain cand k2 where rn: "randomNeighbor rnd k current = (cand, k2)"
    by (cases "randomNeighbor rnd k current")
  then have k2: "k2 = k + 2"
    using randomNeighbor_cursor[of rnd k current] by simp
  obtain r where r: "generateTradingSignals d cand False = Inr r" "numTrades r < 3"
    using assms by blast
  show ?case
    using rn r k2 Suc.IH[of "k + 2"] by simp
qed

lemma random_half: "randomParams rnd_half k = (params_half, k + 4)"
  by (simp add: randomParams_def rnd_half_def params_half_def randInt_def bounds_def)

lemma random_zero: "randomParams rnd_zero k = (params_zero, k + 4)"
  by (simp add: randomParams_def rnd_zero_def params_zero_def randInt_def bounds_def)

lemma one_candle_eval:
  "\<exists>r. generateTradingSignals one_candle p False = Inr r \<and> numTrades r = 0 \<and> profit r = Fin 0"
  using short_series_no_trade[of one_candle p False] by (auto simp: one_candle_def)

lemma one_candle_climb:
  assumes "randomParams rnd k = (start, k + 4)"
  shows "runOneHillClimb (Some one_candle) captured rnd k st
           = Inr (with_result start (Fin 0) 0, st, k + 604)"
proof -
  obtain r where r: "generateTradingSignals one_candle start False = Inr r"
      "numTrades r = 0" "profit r = Fin 0"
    using one_candle_eval by blast
  have "\<And>p :: OptimizationResult.
          \<exists>r. generateTradingSignals one_candle p False = Inr r \<and> numTrades r < 3"
    using one_candle_eval by fastforce
  then have "climb_loop 300 one_candle rnd (k + 4) (with_result start (Fin 0) 0) st
               = Inr (with_result start (Fin 0) 0, st, k + 4 + 2 * 300)"
    by (rule climb_loop_no_trades)
  then show ?thesis
    using assms r by (simp add: runOneHillClimb_def)
qed


lemma climb_half:
  "runOneHillClimb (Some one_candle) captured rnd_half k st
     = Inr (with_result params_half (Fin 0) 0, st, k + 604)"
  by (rule one_candle_climb[OF random_half])

lemma climb_zero:
  "runOneHillClimb (Some one_candle) captured rnd_zero k st
     = Inr (with_result params_zero (Fin 0) 0, st, k + 604)"
  by (rule one_candle_climb[OF random_zero])

lemma params_of_with_result: "params_of (with_result p m n) = params_of p"
  by (simp add: params_of_def with_result_def)

lemma maxProfit_with_result: "maxProfit (with_result p m n) = m"
  by (simp add: with_result_def)

lemma params_of_id: "params_of (p :: SignalParameters) = p"
  by (simp add: params_of_def)

lemma run_half_initial:
  "runHillClimbForFiveSeconds (Some one_candle) rnd_half 0 example_clock initial_state =
     Some \<lparr>final_state =
             \<lparr>isOptimizing = False, testParams = default_parameters,
              bestParams = with_result params_half (Fin 0) 0,
              highestProfit = \<lparr>hp_profit = Fin 0, hp_params = params_half\<rparr>\<rparr>,
           emitted = [Emit 1700000000002 params_half, FinalEmit params_half],
           thrown = None, final_cursor = 604\<rparr>"
  by (simp add: runHillClimbForFiveSeconds_def example_clock_def climb_half initial_state_def
        UPDATE_THROTTLE_def params_of_with_result params_of_id maxProfit_with_result Let_def)

lemma run_zero_initial:
  "runHillClimbForFiveSeconds (Some one_candle) rnd_zero 0 example_clock initial_state =
     Some \<lparr>final_state =
             \<lparr>isOptimizing = False, testParams = default_parameters,
              bestParams = with_result params_zero (Fin 0) 0,
              highestProfit = \<lparr>hp_profit = Fin 0, hp_params = params_zero\<rparr>\<rparr>,
           emitted = [Emit 1700000000002 params_zero, FinalEmit params_zero],
           thrown = None, final_cursor = 604\<rparr>"
  by (simp add: runHillClimbForFiveSeconds_def example_clock_def climb_zero initial_state_def
        UPDATE_THROTTLE_def params_of_with_result params_of_id maxProfit_with_result Let_def)

lemma run_zero_after_half:
  "runHillClimbForFiveSeconds (Some one_candle) rnd_zero 0 example_clock
     \<lparr>isOptimizing = False, testParams = default_parameters,
      bestParams = with_result params_half (Fin 0) 0,
      highestProfit = \<lparr>hp_profit = Fin 0, hp_params = params_half\<rparr>\<rparr> =
     Some \<lparr>final_state =
             \<lparr>isOptimizing = False, testParams = default_parameters,
              bestParams = with_result params_half (Fin 0) 0,
              highestProfit = \<lparr>hp_profit = Fin 0, hp_params = params_half\<rparr>\<rparr>,
           emitted = [FinalEmit params_half],
           thrown = None, final_cursor = 1208\<rparr>"
  by (simp add: runHillClimbForFiveSeconds_def example_clock_def climb_zero
        UPDATE_THROTTLE_def params_of_with_result params_of_id maxProfit_with_result Let_def)


lemma less_number_trans: "a < b \<Longrightarrow> b < c \<Longrightarrow> a < (c::number)"
  by (cases a; cases b; cases c) auto

lemma run_loop_invariant:
  assumes run: "run_loop d cap rnd start clock ls = Some res"
    and res: "res = Inr ls2 \<or> res = Inl (e, ls2)"
    and init: "P ls"
    and keep: "\<And>x h k. P x \<Longrightarrow> P (x\<lparr>hook := h, cursor := k\<rparr>)"
    and keep_hook: "\<And>x h. P x \<Longrightarrow> P (x\<lparr>hook := h\<rparr>)"
    and emit: "\<And>x attempt h k now. P x \<Longrightarrow> now \<in> set clock
        \<Longrightarrow> maxProfit (localBest x) < maxProfit attempt
        \<Longrightarrow> UPDATE_THROTTLE \<le> now - lastUpdateTime x
        \<Longrightarrow> P (x\<lparr>localBest := attempt, lastUpdateTime := now,
                 hook := h\<lparr>bestParams := attempt\<rparr>, cursor := k,
                 events := events x @ [Emit now (params_of attempt)]\<rparr>)"
    and supp: "\<And>x attempt h k now. P x \<Longrightarrow> now \<in> set clock
        \<Longrightarrow> maxProfit (localBest x) < maxProfit attempt
        \<Longrightarrow> \<not> UPDATE_THROTTLE \<le> now - lastUpdateTime x
        \<Longrightarrow> P (x\<lparr>localBest := attempt, hook := h, cursor := k,
                 events := events x @ [Suppressed now (params_of attempt)]\<rparr>)"
  shows "P ls2"
  using run init emit supp
proof (induction clock arbitrary: ls rule: length_induct)
  case (1 xs)
  note emit1 = "1.prems"(3) and supp1 = "1.prems"(4)
  have ih: "\<And>ys x. length ys < length xs \<Longrightarrow> set ys \<subseteq> set xs
      \<Longrightarrow> run_loop d cap rnd start ys x = Some res \<Longrightarrow> P x \<Longrightarrow> P ls2"
  proof -
    fix ys x
    assume a: "length ys < length xs" "set ys \<subseteq> set xs"
      "run_loop d cap rnd start ys x = Some res" "P x"
    show "P ls2"
    proof (rule "1.IH"[rule_format, OF a(1) a(3) a(4)])
      fix x :: loop_state and attempt :: OptimizationResult and h :: hook_state
        and k :: nat and now :: int
      assume "P x" "now \<in> set ys" "maxProfit (localBest x) < maxProfit attempt"
        "UPDATE_THROTTLE \<le> now - lastUpdateTime x"
      then show "P (x\<lparr>localBest := attempt, lastUpdateTime := now,
                 hook := h\<lparr>bestParams := attempt\<rparr>, cursor := k,
                 events := events x @ [Emit now (params_of attempt)]\<rparr>)"
        using emit1 a(2) by blast
    next
      fix x :: loop_state and attempt :: OptimizationResult and h :: hook_state
        and k :: nat and now :: int
      assume "P x" "now \<in> set ys" "maxProfit (localBest x) < maxProfit attempt"
        "\<not> UPDATE_THROTTLE \<le> now - lastUpdateTime x"
      then show "P (x\<lparr>localBest := attempt, hook := h, cursor := k,
                 events := events x @ [Suppressed now (params_of attempt)]\<rparr>)"
        using supp1 a(2) by blast
    qed
  qed
  show ?case
  proof (cases xs)
    case Nil
    with "1.prems"(1) show ?thesis by simp
  next
    case (Cons t clock)
    show ?thesis
    proof (cases "t - start < 5000")
      case False
      with "1.prems"(1,2) Cons res show ?thesis by auto
    next
      case True
      show ?thesis
      proof (cases "runOneHillClimb d cap rnd (cursor ls) (hook ls)")
        case (Inl a)
        obtain e2 h where "a = (e2, h)" by (cases a)
        with "1.prems"(1) Cons True Inl res have "ls2 = ls\<lparr>hook := h\<rparr>"
          by auto
        then show ?thesis using keep_hook "1.prems"(2) by simp
      next
        case (Inr cres)
        obtain attempt h k where cres: "cres = (attempt, h, k)" by (cases cres)
        show ?thesis
        proof (cases "maxProfit attempt > maxProfit (localBest ls)")
          case False
          then have "run_loop d cap rnd start clock (ls\<lparr>hook := h, cursor := k\<rparr>) = Some res"
            using "1.prems"(1) Cons True Inr cres by simp
          moreover have "P (ls\<lparr>hook := h, cursor := k\<rparr>)"
            using keep "1.prems"(2) by simp
          ultimately show ?thesis
            using ih[of clock "ls\<lparr>hook := h, cursor := k\<rparr>"] Cons by auto
        next
          case better: True
          show ?thesis
          proof (cases clock)
            case Nil
            with "1.prems"(1) Cons True Inr cres better show ?thesis by simp
          next
            case (Cons now clock2)
            define ls3 where "ls3 =
              (if now - lastUpdateTime ls \<ge> UPDATE_THROTTLE
               then ls\<lparr>localBest := attempt, lastUpdateTime := now,
                       hook := h\<lparr>bestParams := attempt\<rparr>, cursor := k,
                       events := events ls @ [Emit now (params_of attempt)]\<rparr>
               else ls\<lparr>localBest := attempt, hook := h, cursor := k,
                       events := events ls @ [Suppressed now (params_of attempt)]\<rparr>)"
            have xs: "xs = t # now # clock2"
              using \<open>xs = t # clock\<close> Cons by simp
            have "run_loop d cap rnd start clock2 ls3 = Some res"
              using "1.prems"(1) xs True Inr cres better
              by (auto simp: ls3_def split: if_splits)
            moreover have "P ls3"
              unfolding ls3_def
              using emit1[where x = ls and now = now and attempt = attempt and h = h and k = k]
                supp1[where x = ls and now = now and attempt = attempt and h = h and k = k]
                "1.prems"(2) better xs
              by simp
            ultimately show ?thesis
              using ih[of clock2 ls3] xs by auto
          qed
        qed
      qed
    qed
  qed
qed

lemma run_loop_best:
  assumes "run_loop d cap rnd start clock ls = Some (Inr ls2)"
  shows "localBest ls2 = localBest ls \<or> maxProfit (localBest ls) < maxProfit (localBest ls2)"
  by (rule run_loop_invariant[OF assms disjI1[OF refl],
        where P = "\<lambda>x. localBest x = localBest ls
                      \<or> maxProfit (localBest ls) < maxProfit (localBest x)"])
     (auto intro: less_number_trans)







lemma run_cases:
  assumes "runHillClimbForFiveSeconds d rnd k clock st = Some r"
  obtains (finished) startTime clock2 ls2 where
      "clock = startTime # clock2"
      "run_loop d st rnd startTime clock2
         \<lparr>localBest = bestParams st, lastUpdateTime = 0,
          hook = st\<lparr>isOptimizing := True\<rparr>, cursor = k, events = []\<rparr> = Some (Inr ls2)"
      "thrown r = None"
      "emitted r = events ls2 @ [FinalEmit (params_of (localBest ls2))]"
      "bestParams (final_state r) = localBest ls2"
      "isOptimizing (final_state r) = False"
  | (failed) startTime clock2 ls2 e where
      "clock = startTime # clock2"
      "run_loop d st rnd startTime clock2
         \<lparr>localBest = bestParams st, lastUpdateTime = 0,
          hook = st\<lparr>isOptimizing := True\<rparr>, cursor = k, events = []\<rparr> = Some (Inl (e, ls2))"
      "thrown r = Some e"
      "emitted r = events ls2"
      "isOptimizing (final_state r) = False"
proof (cases clock)
  case Nil
  with assms show ?thesis by (simp add: runHillClimbForFiveSeconds_def)
next
  case (Cons startTime clock2)
  let ?ls0 = "\<lparr>localBest = bestParams st, lastUpdateTime = 0,
          hook = st\<lparr>isOptimizing := True\<rparr>, cursor = k, events = []\<rparr>"
  show ?thesis
  proof (cases "run_loop d st rnd startTime clock2 ?ls0")
    case None
    with assms Cons show ?thesis by (simp add: runHillClimbForFiveSeconds_def)
  next
    case (Some res)
    show ?thesis
    proof (cases res)
      case (Inl a)
      obtain e ls2 where a: "a = (e, ls2)" by (cases a)
      have "r = \<lparr>final_state = (hook ls2)\<lparr>isOptimizing := False\<rparr>,
                 emitted = events ls2, thrown = Some e, final_cursor = cursor ls2\<rparr>"
        using assms Cons Some Inl a by (simp add: runHillClimbForFiveSeconds_def)
      then show ?thesis
        using failed[of startTime clock2 e ls2] Cons Some Inl a by simp
    next
      case (Inr ls2)
      have "thrown r = None
          \<and> emitted r = events ls2 @ [FinalEmit (params_of (localBest ls2))]
          \<and> bestParams (final_state r) = localBest ls2
          \<and> isOptimizing (final_state r) = False"
        using assms Cons Some Inr
        by (auto simp: runHillClimbForFiveSeconds_def Let_def split: if_splits)
      then show ?thesis
        using finished[of startTime clock2 ls2] Cons Some Inr by simp
    qed
  qed
qed

text \<open>
  C3, as amended.  A run does not reset its best-so-far state to the sentinel: it starts
  from the \<open>bestParams\<close> the hook holds, which is the sentinel in the initial state and
  after \<open>resetParameters\<close> and otherwise the best of the previous run.  The best a run
  ends with is therefore the inherited one, or one of strictly greater profit.
\<close>

theorem run_continues_from_bestParams:
  assumes "runHillClimbForFiveSeconds ohlcvData rnd k clock st = Some r"
    and "thrown r = None"
  shows "(bestParams (final_state r) = bestParams st
          \<or> maxProfit (bestParams st) < maxProfit (bestParams (final_state r)))
       \<and> maxProfit (bestParams initial_state) = NInf
       \<and> maxProfit (bestParams (resetParameters st)) = NInf"
  using assms(1)
proof (cases rule: run_cases)
  case (finished startTime clock2 ls2)
  from run_loop_best[OF finished(2)] finished(5)
  show ?thesis
    by (simp add: initial_state_def resetParameters_def with_result_def)
next
  case (failed startTime clock2 ls2 e)
  with assms(2) show ?thesis by simp
qed















text \<open>
  C2.  The claim: if no candidate of a run has at least 3 trades, the run ends with the
  sentinel of profit \<open>-Infinity\<close>.  The code: \<open>runOneHillClimb\<close> takes the profit of its
  initial random sample without the trade-count test that it applies to every neighbour.
  On a one-candle series every evaluation has no trade and profit 0; the first climb
  returns its initial sample with profit 0, which is greater than \<open>-Infinity\<close> and
  becomes, and is emitted as, the best of the run.
\<close>

theorem unfiltered_initial_sample_becomes_best:
  "runHillClimbForFiveSeconds (Some one_candle) rnd_half 0 example_clock initial_state =
     Some \<lparr>final_state =
             \<lparr>isOptimizing = False, testParams = default_parameters,
              bestParams = with_result params_half (Fin 0) 0,
              highestProfit = \<lparr>hp_profit = Fin 0, hp_params = params_half\<rparr>\<rparr>,
           emitted = [Emit 1700000000002 params_half, FinalEmit params_half],
           thrown = None, final_cursor = 604\<rparr>
   \<and> (\<forall>p :: SignalParameters.
         \<exists>r. generateTradingSignals one_candle p False = Inr r \<and> numTrades r = 0)
   \<and> (\<forall>p :: OptimizationResult.
         \<exists>r. generateTradingSignals one_candle p False = Inr r \<and> numTrades r = 0)
   \<and> maxProfit (with_result params_half (Fin 0) 0) = Fin 0
   \<and> opt_numTrades (with_result params_half (Fin 0) 0) = 0"
proof -
  have a: "\<forall>p :: SignalParameters.
         \<exists>r. generateTradingSignals one_candle p False = Inr r \<and> numTrades r = 0"
    using one_candle_eval by blast
  have b: "\<forall>p :: OptimizationResult.
         \<exists>r. generateTradingSignals one_candle p False = Inr r \<and> numTrades r = 0"
    using one_candle_eval by blast
  show ?thesis
    using run_half_initial a b by (simp add: with_result_def)
qed

text \<open>
  Two runs with the same inputs, one in the state a previous run left and one in the
  initial state, end with different parameters: the first keeps the previous run's best.
\<close>

theorem run_depends_on_earlier_run:
  "runHillClimbForFiveSeconds (Some one_candle) rnd_half 0 example_clock initial_state =
     Some \<lparr>final_state =
             \<lparr>isOptimizing = False, testParams = default_parameters,
              bestParams = with_result params_half (Fin 0) 0,
              highestProfit = \<lparr>hp_profit = Fin 0, hp_params = params_half\<rparr>\<rparr>,
           emitted = [Emit 1700000000002 params_half, FinalEmit params_half],
           thrown = None, final_cursor = 604\<rparr>
   \<and> map_option emitted
        (runHillClimbForFiveSeconds (Some one_candle) rnd_zero 0 example_clock
           \<lparr>isOptimizing = False, testParams = default_parameters,
            bestParams = with_result params_half (Fin 0) 0,
            highestProfit = \<lparr>hp_profit = Fin 0, hp_params = params_half\<rparr>\<rparr>)
       = Some [FinalEmit params_half]
   \<and> map_option emitted
        (runHillClimbForFiveSeconds (Some one_candle) rnd_zero 0 example_clock initial_state)
       = Some [Emit 1700000000002 params_zero, FinalEmit params_zero]"
  by (simp add: run_half_initial run_zero_after_half run_zero_initial)

theorem run_continues_from_bestParams_witness:
  "runHillClimbForFiveSeconds (Some one_candle) rnd_zero 0 example_clock
     \<lparr>isOptimizing = False, testParams = default_parameters,
      bestParams = with_result params_half (Fin 0) 0,
      highestProfit = \<lparr>hp_profit = Fin 0, hp_params = params_half\<rparr>\<rparr> =
     Some \<lparr>final_state =
             \<lparr>isOptimizing = False, testParams = default_parameters,
              bestParams = with_result params_half (Fin 0) 0,
              highestProfit = \<lparr>hp_profit = Fin 0, hp_params = params_half\<rparr>\<rparr>,
           emitted = [FinalEmit params_half],
           thrown = None, final_cursor = 1208\<rparr>
   \<and> maxProfit (bestParams initial_state) = NInf"
  using run_continues_from_bestParams[OF run_zero_after_half] run_zero_after_half
  by simp


end
